theory Spec2Isabelle
  imports Complex_Main
begin

section \<open>Numeric values of the arrays\<close>

text \<open>
  The notebooks work on numpy/xarray arrays of double-precision numbers. An array
  element is a number or the missing value NaN. A double is taken for the real number
  it denotes, so comparisons are exact; every ordering comparison with a NaN operand is
  false. The rounding of arithmetic on doubles is modelled in the next section and
  applied where the code computes the quantile thresholds and the transition
  probabilities; the means taken by \<open>anomalies\<close> and the percentage of \<open>calculate_overlap\<close>
  are written with exact arithmetic.
\<close>

datatype fval = Num real | NaN

fun fgt :: "fval \<Rightarrow> fval \<Rightarrow> bool" where
  "fgt (Num a) (Num b) = (a > b)"
| "fgt _ _ = False"

fun flt :: "fval \<Rightarrow> fval \<Rightarrow> bool" where
  "flt (Num a) (Num b) = (a < b)"
| "flt _ _ = False"

section \<open>Double-precision arithmetic\<close>

text \<open>
  Python floats and numpy's \<^verbatim>\<open>float64\<close> are IEEE 754 doubles: 53 significant bits, exponents
  from -1022 to 1023, and every arithmetic operation returns the double nearest to the
  exact result, the one with an even last bit when two doubles are equally near.
  \<open>fl x\<close> is that double for a real number \<open>x\<close>. \<open>pow2 e\<close> is the power of two with exponent
  \<open>e\<close>; \<open>ilog2 x\<close> is the exponent of the leading bit of \<open>x > 0\<close>, found by halving or
  doubling \<open>x\<close>; below \<open>pow2 (- 1022)\<close> the doubles keep the spacing \<open>pow2 (- 1074)\<close>. A result
  beyond the largest double (an overflow to infinity) is not represented: the quotients
  and interpolations below stay within the range of their operands.
\<close>

definition pow2 :: "int \<Rightarrow> real" where
  "pow2 e = (if 0 \<le> e then 2 ^ nat e else 1 / 2 ^ nat (- e))"

definition round_half_even :: "real \<Rightarrow> int" where
  "round_half_even y =
     (let n = \<lfloor>y\<rfloor>; r = y - of_int n
      in if r < 1 / 2 then n else if 1 / 2 < r then n + 1 else if even n then n else n + 1)"

fun halvings :: "nat \<Rightarrow> real \<Rightarrow> int" where
  "halvings 0 x = 0"
| "halvings (Suc n) x = (if x < 2 then 0 else halvings n (x / 2) + 1)"

fun doublings :: "nat \<Rightarrow> real \<Rightarrow> int" where
  "doublings 0 x = 0"
| "doublings (Suc n) x = (if 1 \<le> x then 0 else doublings n (2 * x) - 1)"

definition ilog2 :: "real \<Rightarrow> int" where
  "ilog2 x = (if 1 \<le> x then halvings 1024 x else doublings 1075 x)"

definition fl :: "real \<Rightarrow> real" where
  "fl x = (if x = 0 then 0
           else let e = max (ilog2 \<bar>x\<bar>) (- 1022); u = pow2 (e - 52)
                in of_int (round_half_even (x / u)) * u)"

section \<open>Errors\<close>

text \<open>The Python exceptions that the modelled code can raise.\<close>

datatype error = ValueError | IndexError | ZeroDivisionError | TypeError | InvalidIndexError

text \<open>
  A list comprehension whose element expression raises does not produce a list: the
  first exception leaves the comprehension.
\<close>

fun collect :: "(error + 'a) list \<Rightarrow> error + 'a list" where
  "collect [] = Inr []"
| "collect (Inl e # rs) = Inl e"
| "collect (Inr v # rs) = (case collect rs of Inl e \<Rightarrow> Inl e | Inr vs \<Rightarrow> Inr (v # vs))"

section \<open>Download script: chunks of dates\<close>

text \<open>
  \<^verbatim>\<open>dates_atm_vars = [list(v) for l, v in groupby(dates_generated_all[:], lambda x: x[:6])]\<close>

  The dates are strings \<^verbatim>\<open>YYYYMMDD\<close>. \<^verbatim>\<open>itertools.groupby\<close> splits a list into its maximal runs of
  consecutive elements with the same key; the key \<^verbatim>\<open>x[:6]\<close> is the year and month.
\<close>

fun groupby :: "('a \<Rightarrow> 'k) \<Rightarrow> 'a list \<Rightarrow> ('k \<times> 'a list) list" where
  "groupby key [] = []"
| "groupby key (x # xs) =
     (case groupby key xs of
        [] \<Rightarrow> [(key x, [x])]
      | (k, g) # rest \<Rightarrow> if key x = k then (k, x # g) # rest else (key x, [x]) # (k, g) # rest)"

definition dates_atm_vars :: "string list \<Rightarrow> string list list" where
  "dates_atm_vars dates_generated_all = map snd (groupby (take 6) dates_generated_all)"

text \<open>The slice \<^verbatim>\<open>xs[-1:]\<close>: the last element as a list, or the empty list.\<close>

definition last_slice :: "'a list \<Rightarrow> 'a list" where
  "last_slice xs = drop (length xs - 1) xs"

text \<open>
  \<^verbatim>\<open>dates_precipit = [dates_atm_vars[i][-1:] + dates_atm_vars[i+1] for i in range(len(dates_atm_vars)-1)]\<close>
  \<^verbatim>\<open>dates_precipit.insert(0, dates_atm_vars[0])\<close>

  The second statement raises IndexError when there is no chunk at all.
\<close>

definition dates_precipit :: "string list list \<Rightarrow> error + string list list" where
  "dates_precipit atm =
     (let chunks = map (\<lambda>i. last_slice (atm ! i) @ atm ! (i + 1)) [0..<length atm - 1]
      in case atm of [] \<Rightarrow> Inl IndexError | c0 # _ \<Rightarrow> Inr (c0 # chunks))"

text \<open>
  \<open>precip_subset\<close> retrieves the hourly forecast fields of its chunk of dates and, for
  \<^verbatim>\<open>i_day in range(len(dates_subset) - 1)\<close>, sums the fields \<^verbatim>\<open>fc_all[12 + 24*i_day : 12 + 24*(i_day+1)]\<close>
  and stamps the sum with the date \<^verbatim>\<open>dates_subset[i_day + 1]\<close>. The retrieved values come from
  the archive; the model keeps, for every daily field, its date and the range of hourly
  fields it sums.
\<close>

record daily_field =
  field_date :: string
  start_indice :: nat
  end_indice :: nat

definition precip_subset :: "string list \<Rightarrow> daily_field list" where
  "precip_subset dates_subset =
     map (\<lambda>i_day. \<lparr>field_date = dates_subset ! (i_day + 1),
                     start_indice = 12 + 24 * i_day,
                     end_indice = 12 + 24 * (i_day + 1)\<rparr>)
         [0..<length dates_subset - 1]"

text \<open>
  The fieldsets of all chunks, in the order of the chunks, are appended to the first one:
  \<^verbatim>\<open>for i in range(1, len(Precip)): Precip[0].append(Precip[i])\<close>.
\<close>

definition Precip :: "string list list \<Rightarrow> daily_field list" where
  "Precip chunks = concat (map precip_subset chunks)"

section \<open>Temporal overlap of extreme days\<close>

text \<open>
  The time coordinate of both precipitation datasets is a string \<^verbatim>\<open>YYYYMMDD\<close> made by
  \<^verbatim>\<open>strftime('%Y%m%d')\<close>. Such a string and the calendar day it names determine each other
  (\<^verbatim>\<open>pd.to_datetime\<close> reads the day, \<^verbatim>\<open>strftime\<close> writes it back), so a date is
  represented by the number of its day. \<^verbatim>\<open>pd.date_range(a, b)\<close> lists the days from \<open>a\<close> to
  \<open>b\<close>, and \<^verbatim>\<open>d + pd.DateOffset(days=k)\<close> is the day \<open>d + k\<close>.
\<close>

type_synonym date = int

definition date_range :: "date \<Rightarrow> date \<Rightarrow> date list" where
  "date_range start end = [start..end]"

text \<open>The argument of \<open>days_extend\<close> is one date string or a list of them.\<close>

datatype dates_arg = Single date | Many "date list"

definition days_extend :: "dates_arg \<Rightarrow> int \<Rightarrow> date set" where
  "days_extend actual_dates days_offset =
     (let dates_dt = (case actual_dates of Single d \<Rightarrow> [d] | Many ds \<Rightarrow> ds);
          all_dates = map (\<lambda>i_date. date_range (i_date - days_offset) (i_date + days_offset)) dates_dt
      in set (concat all_dates))"

text \<open>
  One element of the list \<open>common_percent\<close> of \<open>calculate_overlap\<close>:
  \<^verbatim>\<open>len(set(i) & W(j))/len(i)*100 if len(j)!=0 else np.nan\<close>, where \<open>W(j)\<close> is \<^verbatim>\<open>set(j)\<close> in the
  branch for \<^verbatim>\<open>offset == 0\<close> and \<^verbatim>\<open>days_extend(j, offset)\<close> in the other. Dividing by
  \<^verbatim>\<open>len(i) = 0\<close> raises ZeroDivisionError.
\<close>

definition overlap_cell :: "(date list \<Rightarrow> date set) \<Rightarrow> date list \<Rightarrow> date list \<Rightarrow> error + fval" where
  "overlap_cell window i j =
     (if length j \<noteq> 0
      then (if length i = 0 then Inl ZeroDivisionError
            else Inr (Num (real (card (set i \<inter> window j)) / real (length i) * 100)))
      else Inr NaN)"

definition common_percent_fast :: "date list list \<Rightarrow> date list list \<Rightarrow> error + fval list" where
  "common_percent_fast ERA5_Q EOBS_Q =
     collect (map (\<lambda>(i, j). overlap_cell set i j) (zip ERA5_Q EOBS_Q))"

definition common_percent_window :: "int \<Rightarrow> date list list \<Rightarrow> date list list \<Rightarrow> error + fval list" where
  "common_percent_window offset ERA5_Q EOBS_Q =
     collect (map (\<lambda>(i, j). overlap_cell (\<lambda>j. days_extend (Many j) offset) i j) (zip ERA5_Q EOBS_Q))"

definition common_percent :: "int \<Rightarrow> date list list \<Rightarrow> date list list \<Rightarrow> error + fval list" where
  "common_percent offset ERA5_Q EOBS_Q =
     (if offset = 0 then common_percent_fast ERA5_Q EOBS_Q
      else common_percent_window offset ERA5_Q EOBS_Q)"

section \<open>Arrays with missing values\<close>

text \<open>
  numpy's \<^verbatim>\<open>nan\<close>-functions first drop the NaN elements of a one-dimensional array.
\<close>

definition remove_nan :: "fval list \<Rightarrow> real list" where
  "remove_nan xs = [v. Num v \<leftarrow> xs]"



section \<open>Extreme days: \<open>dates_extreme\<close> and \<open>Exceed_xr\<close>\<close>

text \<open>
  A precipitation dataset (\<open>ERA5\<close>, \<open>EOBS\<close>) is an array over (time, latitude, longitude)
  with the dates as time coordinate. \<open>dates_extreme\<close> reshapes it to one row per date and
  one column per grid cell (\<^verbatim>\<open>np.reshape(dataset_df, (len(dataset), -1))\<close>); the model keeps
  the data in that shape.
\<close>

record dataset =
  time :: "date list"
  vals :: "fval list list"

definition ncells :: "dataset \<Rightarrow> nat" where
  "ncells ds = (case vals ds of [] \<Rightarrow> 0 | row # _ \<Rightarrow> length row)"

text \<open>An array is rectangular and has one row for every value of its time coordinate.\<close>

definition wf_dataset :: "dataset \<Rightarrow> bool" where
  "wf_dataset ds \<longleftrightarrow>
     length (vals ds) = length (time ds) \<and> (\<forall>row \<in> set (vals ds). length row = ncells ds)"

text \<open>The time series of grid cell \<open>c\<close>.\<close>

definition column :: "dataset \<Rightarrow> nat \<Rightarrow> fval list" where
  "column ds c = map (\<lambda>row. row ! c) (vals ds)"

text \<open>
  \<^verbatim>\<open>dataset.quantile(q, interpolation='linear', dim='time')\<close> computes, for every grid cell,
  numpy's \<^verbatim>\<open>nanquantile\<close> of the cell's time series: the NaN elements are dropped and what
  is left is sorted. On the sorted values \<open>x\<close> numpy computes

  \<^verbatim>\<open>indices = q * (Nx - 1)\<close>
  \<^verbatim>\<open>indices_below = floor(indices); indices_above = indices_below + 1\<close>
  \<^verbatim>\<open>indices_above[indices_above > Nx - 1] = Nx - 1\<close>
  \<^verbatim>\<open>weights_above = indices - indices_below; weights_below = 1 - weights_above\<close>
  \<^verbatim>\<open>x1 = take(ap, indices_below) * weights_below; x2 = take(ap, indices_above) * weights_above\<close>
  \<^verbatim>\<open>r = add(x1, x2)\<close>

  \<open>quantile_arith rnd\<close> is this arithmetic with \<open>rnd\<close> applied to the result of every
  operation: numpy's result is \<open>quantile_arith fl\<close>, and \<open>quantile_arith (\<lambda>z. z)\<close> is the same
  computation without rounding. A series with nothing left gives NaN (and the
  RuntimeWarning that the notebook silences).
\<close>

definition quantile_arith :: "(real \<Rightarrow> real) \<Rightarrow> real list \<Rightarrow> real \<Rightarrow> real" where
  "quantile_arith rnd x q =
     (let Nx = length x;
          indices = rnd (q * rnd (real (Nx - 1)));
          indices_below = nat \<lfloor>indices\<rfloor>;
          indices_above = min (indices_below + 1) (Nx - 1);
          weights_above = rnd (indices - real indices_below);
          weights_below = rnd (1 - weights_above);
          x1 = rnd (x ! indices_below * weights_below);
          x2 = rnd (x ! indices_above * weights_above)
      in rnd (x1 + x2))"

definition quantile_1d :: "fval list \<Rightarrow> real \<Rightarrow> fval" where
  "quantile_1d arr1d q =
     (let x = sort (remove_nan arr1d); Nx = length x
      in if Nx = 0 then NaN else Num (quantile_arith fl x q))"

text \<open>
  The linearly interpolated percentile in the words of the specification, in exact
  arithmetic: the sorted values stand at the positions \<open>0, \<dots>, Nx - 1\<close>, the quantile \<open>q\<close>
  sits at the position \<open>h = q * (Nx - 1)\<close>, and its value lies between the values at the
  two whole positions next to \<open>h\<close>, in proportion to the fractional part of \<open>h\<close>.
\<close>

definition linear_percentile :: "real list \<Rightarrow> real \<Rightarrow> real" where
  "linear_percentile x q =
     (let h = q * real (length x - 1); i = nat \<lfloor>h\<rfloor>; j = nat \<lceil>h\<rceil>
      in x ! i + (h - real i) * (x ! j - x ! i))"

text \<open>A quantile outside \<open>[0, 1]\<close> is refused with ValueError.\<close>

definition quantile_time :: "dataset \<Rightarrow> real \<Rightarrow> error + fval list" where
  "quantile_time ds q =
     (if q < 0 \<or> 1 < q then Inl ValueError
      else Inr (map (\<lambda>c. quantile_1d (column ds c) q) [0..<ncells ds]))"

text \<open>
  \<^verbatim>\<open>Q_thres = dataset.quantile(quantile, ...)\<close>
  \<^verbatim>\<open>dataset_df = pd.DataFrame(np.reshape(dataset_df, (len(dataset), -1)), index=dataset.time.values)\<close>
  \<^verbatim>\<open>QuantExceed = dataset_df > Q_thres.values.flatten()\<close>
  \<^verbatim>\<open>DaysExceed = QuantExceed.apply(lambda x: list(QuantExceed.index[np.where(x == 1)[0]]), axis=0)\<close>

  The comparison is elementwise, every row against the row of thresholds. The result
  holds, for every grid cell, the list of the dates whose entry in \<open>QuantExceed\<close> is true.
  numpy cannot reshape an array without rows to \<^verbatim>\<open>(0, -1)\<close> and raises ValueError.
\<close>

definition dates_extreme :: "dataset \<Rightarrow> real \<Rightarrow> error + date list list" where
  "dates_extreme ds quantile =
     (case quantile_time ds quantile of
        Inl e \<Rightarrow> Inl e
      | Inr Q_thres \<Rightarrow>
          if length (time ds) = 0 then Inl ValueError
          else let QuantExceed = map (\<lambda>row. map (\<lambda>(v, q). fgt v q) (zip row Q_thres)) (vals ds);
                   DaysExceed = map (\<lambda>c. [t. (t, x) \<leftarrow> zip (time ds) QuantExceed, x ! c])
                                    [0..<ncells ds]
               in Inr DaysExceed)"

text \<open>
  \<^verbatim>\<open>Quant = EOBS.quantile(np.array(P_used)/100, interpolation='linear', dim='time', ...)\<close>
  \<^verbatim>\<open>Exceed_xr = [(EOBS>Quant.sel(percentile=i_p))*1 for i_p in P_used]\<close>

  The field of one percentile \<open>i_p\<close>: 1 where the value is above the threshold of its
  grid cell, 0 elsewhere. The quantile is the double \<^verbatim>\<open>i_p/100\<close>.
\<close>

definition Exceed_xr :: "dataset \<Rightarrow> real \<Rightarrow> error + int list list" where
  "Exceed_xr EOBS i_p =
     (case quantile_time EOBS (fl (i_p / 100)) of
        Inl e \<Rightarrow> Inl e
      | Inr Quant \<Rightarrow> Inr (map (\<lambda>row. map (\<lambda>(v, q). of_bool (fgt v q) * 1) (zip row Quant)) (vals EOBS)))"

section \<open>Anomalies\<close>













section \<open>Transition matrix\<close>

text \<open>
  The input of \<open>transition_matrix\<close> is a vector of states. An element is an ordinary
  value \<open>Val x\<close> or a float NaN. A NaN is not equal to itself, and Python's \<open>set\<close> and \<open>dict\<close>
  take two keys for the same when they are the same object or equal: the same NaN object
  is one key, two NaN objects are two keys. \<open>NaNobj k\<close> is the NaN object with identity \<open>k\<close>.
  (Iterating over a pandas Series or a numpy array makes a new object for every
  element; a list can hold the same object several times.) NaN occurs in vectors of
  numbers only. A DataFrame argument is first flattened to the list of its values
  (\<^verbatim>\<open>data_used = list(data.values.flatten())\<close>); the model starts from \<open>data_used\<close>.
\<close>

datatype 'a elem = Val 'a | NaNobj nat

fun ordinary :: "'a elem list \<Rightarrow> 'a list" where
  "ordinary [] = []"
| "ordinary (Val x # ds) = x # ordinary ds"
| "ordinary (NaNobj k # ds) = ordinary ds"

fun nan_ids :: "'a elem list \<Rightarrow> nat list" where
  "nan_ids [] = []"
| "nan_ids (Val x # ds) = nan_ids ds"
| "nan_ids (NaNobj k # ds) = k # nan_ids ds"

text \<open>
  \<^verbatim>\<open>unique_states = sorted(set(data_used))\<close>

  For a NaN-free vector the values come out without repetition and in increasing order.
  Every comparison with a NaN is false, so with a NaN in the set the order that \<open>sorted\<close>
  returns depends on the order in which the set hands out its elements (the ordinary
  values need not even come out sorted). The model lists the ordinary values in
  increasing order and the NaN objects after them, which is one of the possible orders;
  below it is evaluated on NaN-free vectors and on a vector with a single element only,
  where the order is determined.
\<close>

definition unique_states :: "'a::linorder elem list \<Rightarrow> 'a elem list" where
  "unique_states data_used =
     map Val (sort (remdups (ordinary data_used))) @ map NaNobj (remdups (nan_ids data_used))"

text \<open>\<^verbatim>\<open>dict_sequencial = {val: i for i, val in enumerate(unique_states)}\<close>\<close>

definition dict_sequencial :: "'a elem list \<Rightarrow> ('a elem \<times> nat) list" where
  "dict_sequencial states = map (\<lambda>(i, val). (val, i)) (enumerate 0 states)"

text \<open>
  \<^verbatim>\<open>transitions_numbered = pd.Series(data_used).map(dict_sequencial)\<close>

  pandas turns the dict into a Series indexed by the keys and looks every value up in
  that index. The index treats all NaN alike: with two NaN keys it is not unique and the
  lookup raises InvalidIndexError; with one NaN key every NaN value is mapped to the
  number of that key. A value without key is mapped to NaN (\<open>None\<close> below), which makes
  the whole result an array of floats.
\<close>

definition nan_keys :: "('a elem \<times> nat) list \<Rightarrow> nat list" where
  "nan_keys mapper = [i. (NaNobj k, i) \<leftarrow> mapper]"

definition series_map :: "'a elem list \<Rightarrow> ('a elem \<times> nat) list \<Rightarrow> error + nat option list" where
  "series_map values mapper =
     (if 2 \<le> length (nan_keys mapper) then Inl InvalidIndexError
      else Inr (map (\<lambda>v. case v of
                            Val x \<Rightarrow> map_of mapper (Val x)
                          | NaNobj k \<Rightarrow> (case nan_keys mapper of [] \<Rightarrow> None | i # _ \<Rightarrow> Some i))
                    values))"

text \<open>The slice \<^verbatim>\<open>xs[k:]\<close>; a negative \<open>k\<close> counts from the end.\<close>

definition slice_from :: "'a list \<Rightarrow> int \<Rightarrow> 'a list" where
  "slice_from xs k = (if 0 \<le> k then drop (nat k) xs else drop (nat (int (length xs) + k)) xs)"

text \<open>
  \<^verbatim>\<open>for (i,j) in zip(transitions_numbered,transitions_numbered[lead:]): M[i][j] += 1\<close>

  An index outside the list raises IndexError.
\<close>

fun count_loop :: "(nat \<times> nat) list \<Rightarrow> nat list list \<Rightarrow> error + nat list list" where
  "count_loop [] M = Inr M"
| "count_loop ((i, j) # ps) M =
     (if i < length M \<and> j < length (M ! i)
      then count_loop ps (M[i := (M ! i)[j := M ! i ! j + 1]])
      else Inl IndexError)"

text \<open>
  \<^verbatim>\<open>M = [[0]*n for _ in range(n)]\<close> and the loop. When the numbering holds a NaN its elements
  are floats, and the first \<^verbatim>\<open>M[i]\<close> raises TypeError.
\<close>

definition count_transitions :: "nat \<Rightarrow> nat option list \<Rightarrow> int \<Rightarrow> error + nat list list" where
  "count_transitions n transitions_numbered lead =
     (let M = replicate n (replicate n 0)
      in case those transitions_numbered of
           Some tn \<Rightarrow> count_loop (zip tn (slice_from tn lead)) M
         | None \<Rightarrow> if zip transitions_numbered (slice_from transitions_numbered lead) = []
                    then Inr M else Inl TypeError)"

text \<open>
  \<^verbatim>\<open>for row in M: s = sum(row); if s > 0: row[:] = [f/s for f in row]\<close>

  \<open>f\<close> and \<open>s\<close> are Python integers, and \<^verbatim>\<open>f/s\<close> is the double nearest to their quotient. A row
  without transition keeps its integer zeros.
\<close>

definition to_probabilities :: "nat list list \<Rightarrow> real list list" where
  "to_probabilities M =
     map (\<lambda>row. let s = sum_list row
                 in if s > 0 then map (\<lambda>f. fl (real f / real s)) row else map real row) M"

text \<open>
  \<^verbatim>\<open>M = pd.DataFrame(M, columns=unique_states, index=unique_states)\<close>: the matrix with the
  states as labels of its rows and of its columns.
\<close>

record 'a dataframe =
  labels :: "'a elem list"
  cells :: "real list list"

definition transition_matrix :: "'a::linorder elem list \<Rightarrow> int \<Rightarrow> error + 'a dataframe" where
  "transition_matrix data_used lead =
     (let states = unique_states data_used;
          n = length states
      in case series_map data_used (dict_sequencial states) of
           Inl e \<Rightarrow> Inl e
         | Inr transitions_numbered \<Rightarrow>
             (case count_transitions n transitions_numbered lead of
                Inl e \<Rightarrow> Inl e
              | Inr M \<Rightarrow> Inr \<lparr>labels = states, cells = to_probabilities M\<rparr>))"

text \<open>
  The quantities the estimate is stated in: the number of positions \<open>t\<close> where the vector
  goes from state \<open>a\<close> to state \<open>b\<close> within \<open>lead\<close> steps, and the number of positions where
  it leaves state \<open>a\<close>.
\<close>

definition transitions :: "'a list \<Rightarrow> nat \<Rightarrow> 'a \<Rightarrow> 'a \<Rightarrow> nat" where
  "transitions xs lead a b = card {t. t + lead < length xs \<and> xs ! t = a \<and> xs ! (t + lead) = b}"

definition transitions_from :: "'a list \<Rightarrow> nat \<Rightarrow> 'a \<Rightarrow> nat" where
  "transitions_from xs lead a = card {t. t + lead < length xs \<and> xs ! t = a}"

text \<open>The number that \<open>dict_sequencial\<close> gives to a state.\<close>

definition state_number :: "'a list \<Rightarrow> 'a \<Rightarrow> nat" where
  "state_number S x = the (map_of (zip S [0..<length S]) x)"

section \<open>Statistical significance indicator of \<open>extremes_to_clusters\<close>\<close>

text \<open>
  \<^verbatim>\<open>Sign = (Binom_Cum_Upper > .975)*1 + (Binom_Cum_Lower < .025)*(-1)\<close>

  The two operands are arrays over (percentile, cluster, latitude, longitude) holding the
  values of the library's binomial distribution function; the expression is elementwise.
  An array is modelled as a function from its index to the element. A boolean times an
  integer is the integer 0 or that integer.
\<close>

definition Sign :: "('i \<Rightarrow> fval) \<Rightarrow> ('i \<Rightarrow> fval) \<Rightarrow> 'i \<Rightarrow> int" where
  "Sign Binom_Cum_Upper Binom_Cum_Lower i =
     of_bool (fgt (Binom_Cum_Upper i) (Num 0.975)) * 1
     + of_bool (flt (Binom_Cum_Lower i) (Num 0.025)) * (- 1)"

section \<open>Theorems\<close>

subsection \<open>Rounding to a double\<close>

lemma round_half_even_error: "\<bar>of_int (round_half_even y) - y\<bar> \<le> 1 / 2"
  unfolding round_half_even_def Let_def by (auto; linarith)

lemma round_half_even_nonneg: "0 \<le> y \<Longrightarrow> 0 \<le> round_half_even y"
  unfolding round_half_even_def Let_def by (auto; linarith)

lemma round_half_even_le: "y \<le> of_int N \<Longrightarrow> round_half_even y \<le> N"
  unfolding round_half_even_def Let_def by (auto simp: floor_le_iff le_floor_iff; linarith)

lemma doublings_nonpos: "doublings n x \<le> 0"
  by (induction n x rule: doublings.induct) auto

lemma ilog2_below_one: "x < 1 \<Longrightarrow> ilog2 x \<le> - 1"
proof -
  assume "x < 1"
  have "1075 = Suc 1074" by simp
  then have "doublings 1075 x = doublings 1074 (2 * x) - 1"
    using \<open>x < 1\<close> by (simp only: doublings.simps) simp
  with doublings_nonpos [of 1074 "2 * x"] \<open>x < 1\<close> show ?thesis
    by (simp add: ilog2_def)
qed

lemma fl_one: "fl 1 = 1"
proof -
  have "1024 = Suc 1023" by simp
  then have "halvings 1024 1 = 0" by (simp only: halvings.simps) simp
  then have "ilog2 \<bar>1\<bar> = 0" by (simp add: ilog2_def)
  then show ?thesis
    by (simp add: fl_def pow2_def round_half_even_def Let_def)
qed

lemma fl_unit_error:
  assumes "0 \<le> x" and "x \<le> 1"
  shows "\<bar>fl x - x\<bar> \<le> 1 / 2 ^ 54" and "0 \<le> fl x" and "fl x \<le> 1"
proof -
  have "\<bar>fl x - x\<bar> \<le> 1 / 2 ^ 54 \<and> 0 \<le> fl x \<and> fl x \<le> 1"
  proof (cases "x = 0 \<or> x = 1")
    case True
    then show ?thesis using fl_one by (auto simp: fl_def)
  next
    case False
    with assms have x: "0 < x" "x < 1" by auto
    define e where "e = max (ilog2 \<bar>x\<bar>) (- 1022)"
    define k where "k = nat (52 - e)"
    define u where "u = pow2 (e - 52)"
    from x ilog2_below_one [of "\<bar>x\<bar>"] have e: "e \<le> - 1" "- 1022 \<le> e"
      by (simp_all add: e_def)
    then have u: "u = 1 / 2 ^ k" and k: "53 \<le> k"
      by (simp_all add: u_def k_def pow2_def)
    have flx: "fl x = of_int (round_half_even (x / u)) * u"
      using x by (simp add: fl_def e_def u_def Let_def)
    have upos: "0 < u" by (simp add: u)
    have "fl x - x = (of_int (round_half_even (x / u)) - x / u) * u"
      using upos by (simp add: flx left_diff_distrib)
    then have "\<bar>fl x - x\<bar> = \<bar>of_int (round_half_even (x / u)) - x / u\<bar> * u"
      using upos by (simp add: abs_mult)
    also have "\<dots> \<le> 1 / 2 * u"
      using round_half_even_error [of "x / u"] upos by (intro mult_right_mono) simp_all
    also have "\<dots> \<le> 1 / 2 ^ 54"
    proof -
      have "(2::real) ^ 53 \<le> 2 ^ k" using k by (intro power_increasing) simp_all
      then have "u \<le> 1 / 2 ^ 53" by (simp add: u frac_le)
      then show ?thesis by simp
    qed
    finally have err: "\<bar>fl x - x\<bar> \<le> 1 / 2 ^ 54" .
    have "0 \<le> x / u" using x upos by simp
    then have nonneg: "0 \<le> fl x"
      using round_half_even_nonneg [of "x / u"] upos by (simp add: flx)
    have "x / u \<le> of_int (2 ^ k)"
      using x by (simp add: u)
    then have "round_half_even (x / u) \<le> 2 ^ k"
      by (rule round_half_even_le)
    then have "of_int (round_half_even (x / u)) \<le> (2::real) ^ k"
      by (metis of_int_le_iff of_int_numeral of_int_power)
    then have "fl x \<le> 2 ^ k * u"
      using upos by (simp add: flx)
    then have le1: "fl x \<le> 1" by (simp add: u)
    from err nonneg le1 show ?thesis by simp
  qed
  then show "\<bar>fl x - x\<bar> \<le> 1 / 2 ^ 54" and "0 \<le> fl x" and "fl x \<le> 1" by simp_all
qed

lemma fl_percent:
  assumes "0 \<le> p" "p \<le> 100"
  shows "0 \<le> fl (p / 100)" "fl (p / 100) \<le> 1"
  using fl_unit_error [of "p / 100"] assms by simp_all

subsection \<open>Significance indicator\<close>

text \<open>
  Claim C9. For every grid cell, percentile and cluster (every index \<open>i\<close> of the arrays),
  whatever the two cumulative probabilities are (NaN included), the significance
  indicator computed by \<open>extremes_to_clusters\<close> is one of -1, 0 and +1.
\<close>

theorem Sign_range: "Sign U L i \<in> {- 1, 0, 1}"
  by (simp add: Sign_def of_bool_def)

subsection \<open>Chunks of dates\<close>

lemma groupby_concat: "concat (map snd (groupby key xs)) = xs"
  by (induction xs) (auto split: list.splits)

lemma groupby_nonempty: "g \<in> set (map snd (groupby key xs)) \<Longrightarrow> g \<noteq> []"
  by (induction xs arbitrary: g) (auto split: list.splits if_splits)

lemma groupby_same_key: "(k, g) \<in> set (groupby key xs) \<Longrightarrow> x \<in> set g \<Longrightarrow> key x = k"
proof (induction xs arbitrary: k g)
  case Nil
  then show ?case by simp
next
  case (Cons a xs)
  show ?case
  proof (cases "groupby key xs")
    case Nil
    with Cons.prems show ?thesis by simp
  next
    case (Cons kg rest)
    obtain k' g' where kg: "kg = (k', g')" by (cases kg)
    have head: "key x = k'" if "x \<in> set g'"
      using Cons.IH [of k' g'] that Cons kg by simp
    have tail: "key x = k" if "(k, g) \<in> set rest"
      using Cons.IH [of k g] that Cons Cons.prems(2) by simp
    show ?thesis
    proof (cases "key a = k'")
      case True
      with Cons kg have "groupby key (a # xs) = (k', a # g') # rest" by simp
      with Cons.prems head tail True show ?thesis by auto
    next
      case False
      with Cons kg have "groupby key (a # xs) = (key a, [a]) # (k', g') # rest" by simp
      with Cons.prems head tail show ?thesis by auto
    qed
  qed
qed

lemma groupby_key_changes:
  "Suc i < length (groupby key xs) \<Longrightarrow> fst (groupby key xs ! i) \<noteq> fst (groupby key xs ! Suc i)"
proof (induction xs arbitrary: i)
  case Nil
  then show ?case by simp
next
  case (Cons x xs)
  show ?case
  proof (cases "groupby key xs")
    case Nil
    with Cons.prems show ?thesis by simp
  next
    case (Cons kg rest)
    obtain k g where kg: "kg = (k, g)" by (cases kg)
    show ?thesis
    proof (cases "key x = k")
      case True
      with Cons kg have eq: "groupby key (x # xs) = (k, x # g) # rest" by simp
      show ?thesis
      proof (cases i)
        case 0
        with Cons.prems Cons.IH [of 0] Cons kg eq show ?thesis by auto
      next
        case (Suc m)
        with Cons.prems Cons.IH [of i] Cons kg eq show ?thesis by auto
      qed
    next
      case False
      with Cons kg have eq: "groupby key (x # xs) = (key x, [x]) # (k, g) # rest" by simp
      show ?thesis
      proof (cases i)
        case 0
        with False eq show ?thesis by simp
      next
        case (Suc m)
        with Cons.prems Cons.IH [of m] Cons kg eq show ?thesis by auto
      qed
    qed
  qed
qed

lemma precip_subset_dates: "map field_date (precip_subset ds) = tl ds"
  by (auto simp: precip_subset_def list_eq_iff_nth_eq nth_tl)

lemma last_slice_last: "xs \<noteq> [] \<Longrightarrow> last_slice xs = [last xs]"
  by (cases xs rule: rev_cases) (auto simp: last_slice_def)

lemma count_list_distinct: "distinct xs \<Longrightarrow> d \<in> set xs \<Longrightarrow> count_list xs d = 1"
  by (induction xs) auto

lemma chunks_tl:
  assumes "\<forall>g \<in> set atm. g \<noteq> []"
  shows "map tl (map (\<lambda>i. last_slice (atm ! i) @ atm ! (i + 1)) [0..<length atm - 1]) = tl atm"
proof (rule nth_equalityI)
  show "length (map tl (map (\<lambda>i. last_slice (atm ! i) @ atm ! (i + 1)) [0..<length atm - 1])) = length (tl atm)"
    by simp
next
  fix i
  assume "i < length (map tl (map (\<lambda>i. last_slice (atm ! i) @ atm ! (i + 1)) [0..<length atm - 1]))"
  then have i: "i < length atm - 1" by simp
  then have "atm ! i \<in> set atm" by simp
  with assms have "atm ! i \<noteq> []" by blast
  then have "last_slice (atm ! i) = [last (atm ! i)]" by (rule last_slice_last)
  with i show "map tl (map (\<lambda>i. last_slice (atm ! i) @ atm ! (i + 1)) [0..<length atm - 1]) ! i = tl atm ! i"
    by (simp add: nth_tl)
qed

lemma concat_map_tl:
  "map field_date (Precip cs) = concat (map tl cs)"
  by (induction cs) (simp_all add: Precip_def precip_subset_dates)

lemma groupby_hd_key:
  assumes "(k, g) \<in> set (groupby key xs)"
  shows "g \<noteq> []" and "key (hd g) = k"
proof -
  from assms have "g \<in> set (map snd (groupby key xs))" by force
  then show "g \<noteq> []" by (rule groupby_nonempty)
  then have "hd g \<in> set g" by simp
  with assms show "key (hd g) = k" by (rule groupby_same_key)
qed

lemma groupby_nth_key:
  assumes "i < length (groupby key xs)"
  shows "key (hd (map snd (groupby key xs) ! i)) = fst (groupby key xs ! i)"
proof -
  from assms have "groupby key xs ! i \<in> set (groupby key xs)" by simp
  then have "(fst (groupby key xs ! i), snd (groupby key xs ! i)) \<in> set (groupby key xs)" by simp
  then have "key (hd (snd (groupby key xs ! i))) = fst (groupby key xs ! i)"
    by (rule groupby_hd_key(2))
  with assms show ?thesis by simp
qed

text \<open>
  Claim C7. The year-month chunks are the requested dates cut into pieces: every chunk
  is non-empty, all its dates have the year and month (the first six characters) of its
  first date, and two chunks that follow each other differ in year and month. For a
  non-empty list of requested dates, the precipitation chunks are built without an
  exception, there is one per year-month chunk, chunk 0 is year-month chunk 0 and, for
  every \<open>i \<ge> 1\<close>, chunk \<open>i\<close> is the last date of year-month chunk \<open>i - 1\<close> put in front of
  year-month chunk \<open>i\<close>. \<open>precip_subset\<close> emits one daily field for every date of its chunk
  but the first, in order. Hence the dates of all emitted fields are the requested dates
  without the very first one; when the requested dates are pairwise different, every
  one of them but the first is emitted exactly once and the first is never emitted.
\<close>

theorem precip_chunks_cover:
  assumes "dates_generated_all \<noteq> []"
  shows "concat (dates_atm_vars dates_generated_all) = dates_generated_all
         \<and> (\<forall>g \<in> set (dates_atm_vars dates_generated_all).
               g \<noteq> [] \<and> (\<forall>d \<in> set g. take 6 d = take 6 (hd g)))
         \<and> (\<forall>i. Suc i < length (dates_atm_vars dates_generated_all) \<longrightarrow>
               take 6 (hd (dates_atm_vars dates_generated_all ! i))
                 \<noteq> take 6 (hd (dates_atm_vars dates_generated_all ! Suc i)))
         \<and> (\<exists>cs. dates_precipit (dates_atm_vars dates_generated_all) = Inr cs
           \<and> length cs = length (dates_atm_vars dates_generated_all)
           \<and> cs ! 0 = dates_atm_vars dates_generated_all ! 0
           \<and> (\<forall>i. 1 \<le> i \<and> i < length cs \<longrightarrow>
                 cs ! i = last (dates_atm_vars dates_generated_all ! (i - 1))
                          # dates_atm_vars dates_generated_all ! i)
           \<and> (\<forall>c \<in> set cs. map field_date (precip_subset c) = tl c)
           \<and> map field_date (Precip cs) = tl dates_generated_all
           \<and> (distinct dates_generated_all \<longrightarrow>
                 (\<forall>d \<in> set dates_generated_all.
                    count_list (map field_date (Precip cs)) d = (if d = hd dates_generated_all then 0 else 1))))"
proof -
  define atm where "atm = dates_atm_vars dates_generated_all"
  have cat: "concat atm = dates_generated_all"
    by (simp add: atm_def dates_atm_vars_def groupby_concat)
  have ne: "\<forall>g \<in> set atm. g \<noteq> []"
    unfolding atm_def dates_atm_vars_def using groupby_nonempty by blast
  have month: "\<forall>g \<in> set atm. g \<noteq> [] \<and> (\<forall>d \<in> set g. take 6 d = take 6 (hd g))"
  proof
    fix g assume "g \<in> set atm"
    then obtain k where kg: "(k, g) \<in> set (groupby (take 6) dates_generated_all)"
      by (auto simp: atm_def dates_atm_vars_def)
    from groupby_hd_key [OF kg] have g: "g \<noteq> []" and k: "take 6 (hd g) = k" by simp_all
    have "take 6 d = take 6 (hd g)" if "d \<in> set g" for d
      using groupby_same_key [OF kg that] k by simp
    with g show "g \<noteq> [] \<and> (\<forall>d \<in> set g. take 6 d = take 6 (hd g))" by blast
  qed
  have changes: "take 6 (hd (atm ! i)) \<noteq> take 6 (hd (atm ! Suc i))" if "Suc i < length atm" for i
  proof -
    from that have l: "Suc i < length (groupby (take 6) dates_generated_all)"
      by (simp add: atm_def dates_atm_vars_def)
    then have l': "i < length (groupby (take 6) dates_generated_all)" by simp
    from groupby_key_changes [OF l] groupby_nth_key [OF l] groupby_nth_key [OF l']
    show ?thesis by (simp only: atm_def dates_atm_vars_def not_False_eq_True)
  qed
  from assms cat obtain c0 rest where atm: "atm = c0 # rest"
    by (cases atm) auto
  define chunks where "chunks = map (\<lambda>i. last_slice (atm ! i) @ atm ! (i + 1)) [0..<length atm - 1]"
  define cs where "cs = c0 # chunks"
  have run: "dates_precipit atm = Inr cs"
    by (simp add: dates_precipit_def atm cs_def chunks_def Let_def)
  have len: "length cs = length atm"
    by (simp add: cs_def chunks_def atm)
  have first: "cs ! 0 = atm ! 0"
    by (simp add: cs_def atm)
  have later: "cs ! i = last (atm ! (i - 1)) # atm ! i" if "1 \<le> i" "i < length cs" for i
  proof -
    from that len have i: "i - 1 < length atm - 1" by simp
    then have "atm ! (i - 1) \<in> set atm" by simp
    with ne have "last_slice (atm ! (i - 1)) = [last (atm ! (i - 1))]"
      by (blast intro: last_slice_last)
    moreover from that have "cs ! i = chunks ! (i - 1)"
      by (simp add: cs_def nth_Cons')
    ultimately show ?thesis using i that by (simp add: chunks_def)
  qed
  have tls: "map tl chunks = tl atm"
    unfolding chunks_def using ne by (rule chunks_tl)
  from ne atm have "c0 \<noteq> []" by simp
  then have "concat (map tl cs) = tl (concat atm)"
    using tls by (simp add: cs_def atm)
  then have emitted: "map field_date (Precip cs) = tl dates_generated_all"
    by (simp add: concat_map_tl cat)
  have once: "count_list (map field_date (Precip cs)) d = (if d = hd dates_generated_all then 0 else 1)"
    if "distinct dates_generated_all" "d \<in> set dates_generated_all" for d
  proof -
    from assms obtain x xs where x: "dates_generated_all = x # xs"
      by (cases dates_generated_all) auto
    with that have "x \<notin> set xs" "distinct xs" by auto
    with that x show ?thesis
      by (auto simp: emitted count_list_distinct)
  qed
  have "\<exists>cs. dates_precipit atm = Inr cs
           \<and> length cs = length atm
           \<and> cs ! 0 = atm ! 0
           \<and> (\<forall>i. 1 \<le> i \<and> i < length cs \<longrightarrow> cs ! i = last (atm ! (i - 1)) # atm ! i)
           \<and> (\<forall>c \<in> set cs. map field_date (precip_subset c) = tl c)
           \<and> map field_date (Precip cs) = tl dates_generated_all
           \<and> (distinct dates_generated_all \<longrightarrow>
                 (\<forall>d \<in> set dates_generated_all.
                    count_list (map field_date (Precip cs)) d = (if d = hd dates_generated_all then 0 else 1)))"
    using run len first later emitted once precip_subset_dates by blast
  with cat month changes show ?thesis
    unfolding atm_def [symmetric] by blast
qed

lemma example_chunks:
  "dates_atm_vars [''19790131'', ''19790201'', ''19790202'']
     = [[''19790131''], [''19790201'', ''19790202'']]"
  "dates_precipit [[''19790131''], [''19790201'', ''19790202'']]
     = Inr [[''19790131''], [''19790131'', ''19790201'', ''19790202'']]"
  by (simp_all add: dates_atm_vars_def dates_precipit_def last_slice_def)

theorem precip_chunks_cover_witness:
  "[''19790131'', ''19790201'', ''19790202''] \<noteq> []
   \<and> dates_atm_vars [''19790131'', ''19790201'', ''19790202'']
       = [[''19790131''], [''19790201'', ''19790202'']]
   \<and> dates_precipit (dates_atm_vars [''19790131'', ''19790201'', ''19790202''])
       = Inr [[''19790131''], [''19790131'', ''19790201'', ''19790202'']]
   \<and> map field_date (Precip [[''19790131''], [''19790131'', ''19790201'', ''19790202'']])
       = [''19790201'', ''19790202'']"
proof -
  let ?all = "[''19790131'', ''19790201'', ''19790202'']"
  have ne: "?all \<noteq> []" by simp
  from precip_chunks_cover [OF ne] obtain cs where
    run: "dates_precipit (dates_atm_vars ?all) = Inr cs"
    and emitted: "map field_date (Precip cs) = tl ?all"
    by blast
  from run have "cs = [[''19790131''], [''19790131'', ''19790201'', ''19790202'']]"
    by (simp only: example_chunks sum.inject)
  with emitted have "map field_date (Precip [[''19790131''], [''19790131'', ''19790201'', ''19790202'']])
      = [''19790201'', ''19790202'']"
    by simp
  moreover have "dates_precipit (dates_atm_vars ?all)
      = Inr [[''19790131''], [''19790131'', ''19790201'', ''19790202'']]"
    by (simp only: example_chunks)
  ultimately show ?thesis using ne example_chunks(1) by blast
qed

subsection \<open>Temporal overlap\<close>

lemma days_extend_zero: "days_extend (Many j) 0 = set j"
  by (simp add: days_extend_def date_range_def)

text \<open>
  Claim C10. With a window of zero days, \<open>days_extend\<close> returns exactly the set of the
  dates of its list. So the branch that \<open>calculate_overlap\<close> takes for \<^verbatim>\<open>offset == 0\<close>
  computes, for every grid cell, the same value (or raises the same exception) as the
  general branch would at offset 0.
\<close>

theorem overlap_fast_path:
  "days_extend (Many j) 0 = set j
   \<and> common_percent_fast ERA5_Q EOBS_Q = common_percent_window 0 ERA5_Q EOBS_Q
   \<and> common_percent 0 ERA5_Q EOBS_Q = common_percent_window 0 ERA5_Q EOBS_Q"
  by (simp add: common_percent_def common_percent_fast_def common_percent_window_def
      days_extend_zero)

subsection \<open>Extreme days\<close>

lemma concat_select:
  "concat (map (\<lambda>k. if P k then [f k] else []) ks) = map f (filter P ks)"
  by (induction ks) simp_all

lemma zip_as_map_nth:
  "length xs = length ys \<Longrightarrow> zip xs ys = map (\<lambda>k. (xs ! k, ys ! k)) [0..<length xs]"
  by (rule nth_equalityI) simp_all

lemma wf_row_length:
  "wf_dataset ds \<Longrightarrow> k < length (time ds) \<Longrightarrow> length (vals ds ! k) = ncells ds"
  by (simp add: wf_dataset_def)

lemma days_of_cell:
  assumes wf: "wf_dataset ds" and c: "c < ncells ds"
  shows "[t. (t, x) \<leftarrow> zip (time ds) (map (\<lambda>row. map (\<lambda>(v, q). fgt v q) (zip row Q)) (vals ds)), x ! c]
         = map (\<lambda>k. time ds ! k)
             (filter (\<lambda>k. (map (\<lambda>(v, q). fgt v q) (zip (vals ds ! k) Q)) ! c) [0..<length (time ds)])"
proof -
  let ?QE = "map (\<lambda>row. map (\<lambda>(v, q). fgt v q) (zip row Q)) (vals ds)"
  from wf have len: "length (time ds) = length ?QE"
    by (simp add: wf_dataset_def)
  have "[t. (t, x) \<leftarrow> zip (time ds) ?QE, x ! c]
        = concat (map (\<lambda>k. if ?QE ! k ! c then [time ds ! k] else []) [0..<length (time ds)])"
    by (subst zip_as_map_nth [OF len]) (simp add: comp_def)
  also have "\<dots> = map (\<lambda>k. time ds ! k) (filter (\<lambda>k. ?QE ! k ! c) [0..<length (time ds)])"
    by (rule concat_select)
  also have "filter (\<lambda>k. ?QE ! k ! c) [0..<length (time ds)]
        = filter (\<lambda>k. (map (\<lambda>(v, q). fgt v q) (zip (vals ds ! k) Q)) ! c) [0..<length (time ds)]"
    using len by (intro filter_cong) simp_all
  finally show ?thesis .
qed

lemma fgt_irrefl: "\<not> fgt v v"
  by (cases v) simp_all

lemma dates_extreme_cell:
  assumes wf: "wf_dataset ds" and ne: "time ds \<noteq> []"
    and q: "0 \<le> q" "q \<le> 1" and c: "c < ncells ds"
  shows "\<exists>D. dates_extreme ds q = Inr D \<and> length D = ncells ds \<and>
           D ! c = map (\<lambda>k. time ds ! k)
                     (filter (\<lambda>k. fgt (vals ds ! k ! c) (quantile_1d (column ds c) q))
                        [0..<length (time ds)])"
proof -
  define Q where "Q = map (\<lambda>c. quantile_1d (column ds c) q) [0..<ncells ds]"
  have Qc: "Q ! c = quantile_1d (column ds c) q" and Qlen: "length Q = ncells ds"
    using c by (simp_all add: Q_def)
  have cellwise: "(map (\<lambda>(v, q). fgt v q) (zip (vals ds ! k) Q)) ! c
                  = fgt (vals ds ! k ! c) (quantile_1d (column ds c) q)"
    if "k < length (time ds)" for k
    using wf_row_length [OF wf that] c Qlen Qc by simp
  define D where "D = map (\<lambda>c. [t. (t, x) \<leftarrow> zip (time ds)
        (map (\<lambda>row. map (\<lambda>(v, q). fgt v q) (zip row Q)) (vals ds)), x ! c]) [0..<ncells ds]"
  have run: "dates_extreme ds q = Inr D"
    using q ne by (simp add: dates_extreme_def quantile_time_def Q_def D_def)
  have "D ! c = map (\<lambda>k. time ds ! k)
          (filter (\<lambda>k. (map (\<lambda>(v, q). fgt v q) (zip (vals ds ! k) Q)) ! c) [0..<length (time ds)])"
    using c days_of_cell [OF wf c, of Q] by (simp add: D_def)
  also have "filter (\<lambda>k. (map (\<lambda>(v, q). fgt v q) (zip (vals ds ! k) Q)) ! c) [0..<length (time ds)]
      = filter (\<lambda>k. fgt (vals ds ! k ! c) (quantile_1d (column ds c) q)) [0..<length (time ds)]"
    by (intro filter_cong) (simp_all add: cellwise)
  finally have "D ! c = map (\<lambda>k. time ds ! k)
          (filter (\<lambda>k. fgt (vals ds ! k ! c) (quantile_1d (column ds c) q)) [0..<length (time ds)])" .
  moreover have "length D = ncells ds" by (simp add: D_def)
  ultimately show ?thesis using run by blast
qed

lemma Exceed_xr_cell:
  assumes wf: "wf_dataset ds" and p: "0 \<le> p" "p \<le> 100"
    and c: "c < ncells ds" and t: "t < length (time ds)"
  shows "\<exists>E. Exceed_xr ds p = Inr E \<and>
           E ! t ! c = of_bool (fgt (vals ds ! t ! c) (quantile_1d (column ds c) (fl (p / 100))))"
proof -
  define Q where "Q = map (\<lambda>c. quantile_1d (column ds c) (fl (p / 100))) [0..<ncells ds]"
  have Qc: "Q ! c = quantile_1d (column ds c) (fl (p / 100))" and Qlen: "length Q = ncells ds"
    using c by (simp_all add: Q_def)
  from wf t have tv: "t < length (vals ds)" by (simp add: wf_dataset_def)
  have "Exceed_xr ds p = Inr (map (\<lambda>row. map (\<lambda>(v, q). of_bool (fgt v q) * 1) (zip row Q)) (vals ds))"
    using fl_percent [OF p] by (simp add: Exceed_xr_def quantile_time_def Q_def)
  moreover have "map (\<lambda>row. map (\<lambda>(v, q). of_bool (fgt v q) * 1) (zip row Q)) (vals ds) ! t ! c
      = (of_bool (fgt (vals ds ! t ! c) (quantile_1d (column ds c) (fl (p / 100)))) :: int)"
    using wf_row_length [OF wf t] c Qlen Qc tv by simp
  ultimately show ?thesis by blast
qed

lemma quantile_arith_exact:
  assumes ne: "x \<noteq> []" and q: "0 \<le> q" "q \<le> 1"
  shows "quantile_arith (\<lambda>z. z) x q = linear_percentile x q"
proof -
  define h where "h = q * real (length x - 1)"
  define i where "i = nat \<lfloor>h\<rfloor>"
  have h0: "0 \<le> h" using q by (simp add: h_def)
  have hN: "h \<le> real (length x - 1)"
    unfolding h_def using q by (simp add: mult_left_le_one_le)
  have fl0: "0 \<le> \<lfloor>h\<rfloor>" using h0 by simp
  have ri: "real i = of_int \<lfloor>h\<rfloor>" using fl0 by (simp add: i_def)
  show ?thesis
  proof (cases "h = of_int \<lfloor>h\<rfloor>")
    case True
    then have "\<lceil>h\<rceil> = \<lfloor>h\<rfloor>" by (metis ceiling_of_int)
    then have j: "nat \<lceil>h\<rceil> = i" by (simp add: i_def)
    have w: "h - real i = 0" using True ri by simp
    have "quantile_arith (\<lambda>z. z) x q = x ! i"
      unfolding quantile_arith_def Let_def h_def [symmetric] i_def [symmetric] w by simp
    moreover have "linear_percentile x q = x ! i"
      unfolding linear_percentile_def Let_def h_def [symmetric] j i_def [symmetric] by simp
    ultimately show ?thesis by simp
  next
    case False
    then have cf: "\<lceil>h\<rceil> = \<lfloor>h\<rfloor> + 1" by (simp add: ceiling_altdef)
    then have j: "nat \<lceil>h\<rceil> = i + 1" using fl0 by (simp add: i_def nat_add_distrib)
    have "of_int \<lfloor>h\<rfloor> \<le> h" by simp
    with False have "of_int \<lfloor>h\<rfloor> < h" by (auto simp: order_less_le)
    with hN have "real i < real (length x - 1)" using ri by simp
    then have "i + 1 \<le> length x - 1" by simp
    then have above: "min (i + 1) (length x - 1) = i + 1" by simp
    have "quantile_arith (\<lambda>z. z) x q = x ! i * (1 - (h - real i)) + x ! (i + 1) * (h - real i)"
      unfolding quantile_arith_def Let_def h_def [symmetric] i_def [symmetric] above by simp
    moreover have "linear_percentile x q = x ! i + (h - real i) * (x ! (i + 1) - x ! i)"
      unfolding linear_percentile_def Let_def h_def [symmetric] j i_def [symmetric] by simp
    ultimately show ?thesis by (simp add: algebra_simps)
  qed
qed

text \<open>
  Claim C2, as the code has it. Take a dataset with pairwise different dates, a
  percentile \<open>p\<close> between 0 and 100, a grid cell \<open>c\<close> and a date, at position \<open>t\<close> of the time
  coordinate. Then \<open>dates_extreme\<close> (called with the double \<^verbatim>\<open>p/100\<close>) and \<open>Exceed_xr\<close> return
  normally, the date is in the list that \<open>dates_extreme\<close> returns for the cell if and only
  if the cell's value at that date is strictly greater than the threshold that the code
  computes for the cell, and \<open>Exceed_xr\<close> is 1 there under the same condition and 0
  otherwise. A value equal to the computed threshold is not reported. For a cell with at
  least one value the computed threshold is the result of numpy's interpolation
  arithmetic on the sorted values of the cell, every operation rounded to a double; the
  same arithmetic without rounding gives the linearly interpolated \<open>p\<close>-th percentile.
\<close>

theorem epe_iff_exceeds_computed_threshold:
  assumes wf: "wf_dataset ds" and dist: "distinct (time ds)"
    and p: "0 \<le> p" "p \<le> 100" and c: "c < ncells ds" and t: "t < length (time ds)"
  shows "\<exists>D E. dates_extreme ds (fl (p / 100)) = Inr D \<and> Exceed_xr ds p = Inr E
           \<and> (time ds ! t \<in> set (D ! c)
                \<longleftrightarrow> fgt (vals ds ! t ! c) (quantile_1d (column ds c) (fl (p / 100))))
           \<and> (E ! t ! c = 1
                \<longleftrightarrow> fgt (vals ds ! t ! c) (quantile_1d (column ds c) (fl (p / 100))))
           \<and> (E ! t ! c = 0
                \<longleftrightarrow> \<not> fgt (vals ds ! t ! c) (quantile_1d (column ds c) (fl (p / 100))))
           \<and> (vals ds ! t ! c = quantile_1d (column ds c) (fl (p / 100))
                \<longrightarrow> time ds ! t \<notin> set (D ! c) \<and> E ! t ! c = 0)
           \<and> (remove_nan (column ds c) \<noteq> []
                \<longrightarrow> quantile_1d (column ds c) (fl (p / 100))
                      = Num (quantile_arith fl (sort (remove_nan (column ds c))) (fl (p / 100)))
                  \<and> quantile_arith (\<lambda>z. z) (sort (remove_nan (column ds c))) (p / 100)
                      = linear_percentile (sort (remove_nan (column ds c))) (p / 100))"
proof -
  let ?thr = "quantile_1d (column ds c) (fl (p / 100))"
  from t have ne: "time ds \<noteq> []" by auto
  note q = fl_percent [OF p]
  from dates_extreme_cell [OF wf ne q c] obtain D where
    D: "dates_extreme ds (fl (p / 100)) = Inr D"
    and Dc: "D ! c = map (\<lambda>k. time ds ! k)
                (filter (\<lambda>k. fgt (vals ds ! k ! c) ?thr) [0..<length (time ds)])"
    by blast
  from Exceed_xr_cell [OF wf p c t] obtain E where
    E: "Exceed_xr ds p = Inr E" and Etc: "E ! t ! c = of_bool (fgt (vals ds ! t ! c) ?thr)"
    by blast
  have mem: "time ds ! t \<in> set (D ! c) \<longleftrightarrow> fgt (vals ds ! t ! c) ?thr"
  proof
    assume "time ds ! t \<in> set (D ! c)"
    then obtain k where k: "k < length (time ds)" "fgt (vals ds ! k ! c) ?thr"
      and eq: "time ds ! k = time ds ! t"
      by (auto simp: Dc)
    from dist k(1) t eq have "k = t" by (simp add: nth_eq_iff_index_eq)
    with k show "fgt (vals ds ! t ! c) ?thr" by simp
  next
    assume "fgt (vals ds ! t ! c) ?thr"
    with t show "time ds ! t \<in> set (D ! c)" by (auto simp: Dc)
  qed
  have eqthr: "\<not> fgt (vals ds ! t ! c) ?thr" if "vals ds ! t ! c = ?thr"
    using that fgt_irrefl [of ?thr] by simp
  have sorted_ne: "sort (remove_nan (column ds c)) \<noteq> []" if "remove_nan (column ds c) \<noteq> []"
  proof -
    from that have "length (sort (remove_nan (column ds c))) \<noteq> 0" by simp
    then show ?thesis by (simp only: length_0_conv not_False_eq_True)
  qed
  have thr: "?thr = Num (quantile_arith fl (sort (remove_nan (column ds c))) (fl (p / 100)))"
    if "remove_nan (column ds c) \<noteq> []"
    using sorted_ne [OF that] by (simp add: quantile_1d_def)
  have exact: "quantile_arith (\<lambda>z. z) (sort (remove_nan (column ds c))) (p / 100)
      = linear_percentile (sort (remove_nan (column ds c))) (p / 100)"
    if "remove_nan (column ds c) \<noteq> []"
    using sorted_ne [OF that] p by (intro quantile_arith_exact) simp_all
  have parts: "(E ! t ! c = 1 \<longleftrightarrow> fgt (vals ds ! t ! c) ?thr)"
    "(E ! t ! c = 0 \<longleftrightarrow> \<not> fgt (vals ds ! t ! c) ?thr)"
    by (simp_all add: Etc of_bool_def)
  have eqpart: "vals ds ! t ! c = ?thr \<longrightarrow> time ds ! t \<notin> set (D ! c) \<and> E ! t ! c = 0"
    using eqthr mem parts by blast
  show ?thesis
    using D E mem parts eqpart thr exact by (intro exI [of _ D] exI [of _ E]) blast
qed

text \<open>
  The sentence of the specification, with the exact percentile as the threshold, fails
  on a series of 51 dates whose first 29 values are 0 and whose last 22 values are 1, at
  the 58th percentile. The position of the percentile is \<open>0.58 * 50 = 29\<close>, where the
  sorted series has the value 1: no value of the series is strictly greater than the
  percentile. In doubles \<^verbatim>\<open>58/100*50\<close> is \<^verbatim>\<open>28.999999999999996\<close>, the threshold is interpolated
  between the values at positions 28 and 29 and comes out just below 1, and the 22 dates
  with the value 1 are reported.
\<close>

theorem epe_exact_percentile_not_the_threshold:
  "linear_percentile
      (sort (remove_nan (column \<lparr>time = [1..51],
          vals = replicate 29 [Num 0] @ replicate 22 [Num 1]\<rparr> 0))) (58 / 100) = 1
   \<and> vals \<lparr>time = [1..51], vals = replicate 29 [Num 0] @ replicate 22 [Num 1]\<rparr> ! 29 ! 0 = Num 1
   \<and> quantile_1d (column \<lparr>time = [1..51],
          vals = replicate 29 [Num 0] @ replicate 22 [Num 1]\<rparr> 0) (fl (58 / 100))
       = Num (281474976710655 / 281474976710656)
   \<and> dates_extreme \<lparr>time = [1..51], vals = replicate 29 [Num 0] @ replicate 22 [Num 1]\<rparr>
         (fl (58 / 100)) = Inr [[30..51]]
   \<and> Exceed_xr \<lparr>time = [1..51], vals = replicate 29 [Num 0] @ replicate 22 [Num 1]\<rparr> 58
       = Inr (replicate 29 [0] @ replicate 22 [1])"
  by code_simp

lemma quantile_1d_all_NaN:
  assumes "\<forall>v \<in> set arr1d. v = NaN"
  shows "quantile_1d arr1d q = NaN"
proof -
  from assms have e: "remove_nan arr1d = []"
    by (induction arr1d) (auto simp: remove_nan_def)
  show ?thesis unfolding quantile_1d_def e by simp
qed

text \<open>
  Claim C3. When all values of a grid cell are missing, \<open>dates_extreme\<close> (called on a
  dataset with at least one date and with a quantile in \<open>[0, 1]\<close>) returns normally, the
  threshold of the cell is NaN and the list of dates it returns for the cell is empty.
\<close>

theorem all_missing_cell:
  assumes wf: "wf_dataset ds" and ne: "time ds \<noteq> []"
    and q: "0 \<le> q" "q \<le> 1" and c: "c < ncells ds"
    and missing: "\<forall>v \<in> set (column ds c). v = NaN"
  shows "\<exists>Q_thres DaysExceed.
           quantile_time ds q = Inr Q_thres \<and> Q_thres ! c = NaN
           \<and> dates_extreme ds q = Inr DaysExceed \<and> DaysExceed ! c = []"
proof -
  have thr: "quantile_1d (column ds c) q = NaN"
    using missing by (rule quantile_1d_all_NaN)
  from dates_extreme_cell [OF wf ne q c] obtain D where
    D: "dates_extreme ds q = Inr D"
    and Dc: "D ! c = map (\<lambda>k. time ds ! k)
                (filter (\<lambda>k. fgt (vals ds ! k ! c) (quantile_1d (column ds c) q)) [0..<length (time ds)])"
    by blast
  have "D ! c = []"
    by (simp add: Dc thr)
  moreover have "quantile_time ds q = Inr (map (\<lambda>c. quantile_1d (column ds c) q) [0..<ncells ds])"
    using q by (simp add: quantile_time_def)
  moreover have "map (\<lambda>c. quantile_1d (column ds c) q) [0..<ncells ds] ! c = NaN"
    using c thr by simp
  ultimately show ?thesis using D by blast
qed

lemma example_threshold:
  "quantile_1d (column \<lparr>time = [19790101, 19790102, 19790103, 19790104],
      vals = [[Num 1, NaN], [Num 5, NaN], [Num 3, NaN], [NaN, NaN]]\<rparr> 0) (fl (50 / 100)) = Num 3"
  by code_simp

theorem epe_iff_exceeds_computed_threshold_witness:
  "wf_dataset \<lparr>time = [19790101, 19790102, 19790103, 19790104],
      vals = [[Num 1, NaN], [Num 5, NaN], [Num 3, NaN], [NaN, NaN]]\<rparr>
   \<and> (\<exists>D E. dates_extreme \<lparr>time = [19790101, 19790102, 19790103, 19790104],
                 vals = [[Num 1, NaN], [Num 5, NaN], [Num 3, NaN], [NaN, NaN]]\<rparr> (fl (50 / 100)) = Inr D
          \<and> Exceed_xr \<lparr>time = [19790101, 19790102, 19790103, 19790104],
                 vals = [[Num 1, NaN], [Num 5, NaN], [Num 3, NaN], [NaN, NaN]]\<rparr> 50 = Inr E
          \<and> 19790102 \<in> set (D ! 0) \<and> E ! 1 ! 0 = 1)"
proof -
  let ?ds = "\<lparr>time = [19790101, 19790102, 19790103, 19790104],
      vals = [[Num 1, NaN], [Num 5, NaN], [Num 3, NaN], [NaN, NaN]]\<rparr>"
  have wf: "wf_dataset ?ds" by (simp add: wf_dataset_def ncells_def)
  have dist: "distinct (time ?ds)" by simp
  have c: "0 < ncells ?ds" by (simp add: ncells_def)
  have t: "1 < length (time ?ds)" by simp
  have p: "(0::real) \<le> 50" "(50::real) \<le> 100" by simp_all
  have thr: "fgt (vals ?ds ! 1 ! 0) (quantile_1d (column ?ds 0) (fl (50 / 100)))"
    unfolding example_threshold by simp
  from epe_iff_exceeds_computed_threshold [OF wf dist p c t] obtain D E where
    "dates_extreme ?ds (fl (50 / 100)) = Inr D" "Exceed_xr ?ds 50 = Inr E"
    "time ?ds ! 1 \<in> set (D ! 0) \<longleftrightarrow> fgt (vals ?ds ! 1 ! 0) (quantile_1d (column ?ds 0) (fl (50 / 100)))"
    "E ! 1 ! 0 = 1 \<longleftrightarrow> fgt (vals ?ds ! 1 ! 0) (quantile_1d (column ?ds 0) (fl (50 / 100)))"
    by blast
  with thr have "dates_extreme ?ds (fl (50 / 100)) = Inr D \<and> Exceed_xr ?ds 50 = Inr E
      \<and> time ?ds ! 1 \<in> set (D ! 0) \<and> E ! 1 ! 0 = 1"
    by blast
  then have "dates_extreme ?ds (fl (50 / 100)) = Inr D \<and> Exceed_xr ?ds 50 = Inr E
      \<and> 19790102 \<in> set (D ! 0) \<and> E ! 1 ! 0 = 1"
    by simp
  with wf show ?thesis by blast
qed

theorem all_missing_cell_witness:
  "wf_dataset \<lparr>time = [19790101, 19790102, 19790103, 19790104],
      vals = [[Num 1, NaN], [Num 5, NaN], [Num 3, NaN], [NaN, NaN]]\<rparr>
   \<and> (\<exists>Q_thres DaysExceed.
         quantile_time \<lparr>time = [19790101, 19790102, 19790103, 19790104],
             vals = [[Num 1, NaN], [Num 5, NaN], [Num 3, NaN], [NaN, NaN]]\<rparr> (95 / 100) = Inr Q_thres
         \<and> Q_thres ! 1 = NaN
         \<and> dates_extreme \<lparr>time = [19790101, 19790102, 19790103, 19790104],
             vals = [[Num 1, NaN], [Num 5, NaN], [Num 3, NaN], [NaN, NaN]]\<rparr> (95 / 100) = Inr DaysExceed
         \<and> DaysExceed ! 1 = [])"
proof -
  let ?ds = "\<lparr>time = [19790101, 19790102, 19790103, 19790104],
      vals = [[Num 1, NaN], [Num 5, NaN], [Num 3, NaN], [NaN, NaN]]\<rparr>"
  have wf: "wf_dataset ?ds" by (simp add: wf_dataset_def ncells_def)
  have ne: "time ?ds \<noteq> []" by simp
  have c: "1 < ncells ?ds" by (simp add: ncells_def)
  have q: "(0::real) \<le> 95 / 100" "(95::real) / 100 \<le> 1" by simp_all
  have missing: "\<forall>v \<in> set (column ?ds 1). v = NaN" by (simp add: column_def)
  from all_missing_cell [OF wf ne q c missing] wf show ?thesis by blast
qed

subsection \<open>Anomalies\<close>













subsection \<open>Transition matrix: the counting loop\<close>

lemma count_loop_counts:
  assumes "length M = n" and "\<forall>row \<in> set M. length row = n"
    and "\<forall>p \<in> set ps. fst p < n \<and> snd p < n"
  shows "\<exists>M'. count_loop ps M = Inr M' \<and> length M' = n \<and> (\<forall>row \<in> set M'. length row = n)
           \<and> (\<forall>i < n. \<forall>j < n. M' ! i ! j = M ! i ! j + count_list ps (i, j))"
  using assms
proof (induction ps arbitrary: M)
  case Nil
  then show ?case by simp
next
  case (Cons p ps)
  obtain a b where p: "p = (a, b)" by (cases p)
  with Cons.prems have ab: "a < n" "b < n" by auto
  let ?M1 = "M[a := (M ! a)[b := M ! a ! b + 1]]"
  from Cons.prems ab have rowlen: "length (M ! a) = n" by auto
  have len1: "length ?M1 = n" using Cons.prems by simp
  have rows1: "\<forall>row \<in> set ?M1. length row = n"
  proof
    fix row assume "row \<in> set ?M1"
    then have "row \<in> insert ((M ! a)[b := M ! a ! b + 1]) (set M)"
      using set_update_subset_insert by fastforce
    with Cons.prems rowlen show "length row = n" by auto
  qed
  from Cons.prems have rest: "\<forall>p \<in> set ps. fst p < n \<and> snd p < n" by simp
  from Cons.IH [OF len1 rows1 rest] obtain M' where
    M': "count_loop ps ?M1 = Inr M'" "length M' = n" "\<forall>row \<in> set M'. length row = n"
    and cnt: "\<forall>i < n. \<forall>j < n. M' ! i ! j = ?M1 ! i ! j + count_list ps (i, j)"
    by blast
  have step: "count_loop (p # ps) M = count_loop ps ?M1"
    using p ab Cons.prems rowlen by simp
  have upd: "?M1 ! i ! j = M ! i ! j + (if (a, b) = (i, j) then 1 else 0)"
    if "i < n" "j < n" for i j
    using that Cons.prems(1) rowlen ab by (cases "i = a"; cases "j = b") simp_all
  have "M' ! i ! j = M ! i ! j + count_list (p # ps) (i, j)" if "i < n" "j < n" for i j
    using cnt that upd [OF that] p by simp
  with M' step show ?case by auto
qed

lemma count_list_conv_card: "count_list ps p = card {t. t < length ps \<and> ps ! t = p}"
proof -
  have "count_list ps p = length (filter (\<lambda>q. q = p) ps)"
    by (induction ps) auto
  then show ?thesis by (simp add: length_filter_conv_card)
qed

lemma row_total:
  fixes ps :: "(nat \<times> nat) list"
  assumes "\<forall>p \<in> set ps. snd p < n"
  shows "(\<Sum>j < n. count_list ps (i, j)) = length (filter (\<lambda>p. fst p = i) ps)"
  using assms
proof (induction ps)
  case Nil
  then show ?case by simp
next
  case (Cons p ps)
  obtain a b where p: "p = (a, b)" by (cases p)
  with Cons.prems have b: "b < n" by simp
  have "(\<Sum>j < n. count_list (p # ps) (i, j))
        = (\<Sum>j < n. (if a = i \<and> b = j then 1 else 0) + count_list ps (i, j))"
    by (intro sum.cong refl) (simp add: p)
  also have "\<dots> = (\<Sum>j < n. if a = i \<and> b = j then 1 else 0) + (\<Sum>j < n. count_list ps (i, j))"
    by (rule sum.distrib)
  also have "(\<Sum>j < n. if a = i \<and> b = j then 1 else 0) = (if a = i then 1 else (0::nat))"
  proof (cases "a = i")
    case True
    have "(\<Sum>j < n. if b = j then 1 else 0) = (if b \<in> {..<n} then 1 else (0::nat))"
      by (rule sum.delta') simp
    with True b show ?thesis by simp
  next
    case False
    then show ?thesis by simp
  qed
  finally show ?case using Cons p by simp
qed

subsection \<open>Transition matrix: numbering the states\<close>

lemma vals_map_Val: "ordinary (map Val xs) = xs"
  by (induction xs) simp_all

lemma nans_map_Val: "nan_ids (map Val xs) = []"
  by (induction xs) simp_all

lemma unique_states_Val:
  "unique_states (map Val xs) = map Val (sorted_list_of_set (set xs))"
  unfolding unique_states_def vals_map_Val nans_map_Val
  by (simp add: sorted_list_of_set_sort_remdups)

lemma dict_sequencial_zip: "dict_sequencial states = zip states [0..<length states]"
  by (rule nth_equalityI) (simp_all add: dict_sequencial_def nth_enumerate_eq)

lemma nan_keys_Val: "nan_keys (zip (map Val S) ns) = []"
proof -
  have "[i. (NaNobj k, i) \<leftarrow> map (\<lambda>(x, i). (Val x, i)) ps] = []" for ps :: "('a \<times> nat) list"
    by (induction ps) auto
  moreover have "zip (map Val S) ns = map (\<lambda>(x, i). (Val x, i)) (zip S ns)"
    by (simp add: zip_map1)
  ultimately show ?thesis by (simp only: nan_keys_def)
qed

lemma state_number_nth:
  assumes "distinct S" and "i < length S"
  shows "map_of (zip S [0..<length S]) (S ! i) = Some i"
  using map_of_zip_nth [of S "[0..<length S]" i] assms by simp

lemma lookup_Val:
  assumes "distinct S" and "x \<in> set S"
  shows "map_of (zip (map Val S) [0..<length S]) (Val x) = Some (state_number S x)"
    and "state_number S x < length S" and "S ! state_number S x = x"
proof -
  from assms(2) obtain i where i: "i < length S" "S ! i = x"
    by (auto simp: in_set_conv_nth)
  with assms(1) have m: "map_of (zip S [0..<length S]) x = Some i"
    using state_number_nth by blast
  then have sn: "state_number S x = i" by (simp add: state_number_def)
  have "distinct (map Val S)" using assms(1) by (simp add: distinct_map inj_on_def)
  then have "map_of (zip (map Val S) [0..<length (map Val S)]) (map Val S ! i) = Some i"
    using i(1) by (intro state_number_nth) simp_all
  with i sn show "map_of (zip (map Val S) [0..<length S]) (Val x) = Some (state_number S x)"
    by simp
  from i sn show "state_number S x < length S" "S ! state_number S x = x" by simp_all
qed

lemma state_number_eq_iff:
  assumes "distinct S" and "x \<in> set S" and "i < length S"
  shows "state_number S x = i \<longleftrightarrow> x = S ! i"
  using lookup_Val [OF assms(1,2)] assms(1,3) by (metis nth_eq_iff_index_eq)

lemma those_map_Some: "those (map (\<lambda>x. Some (f x)) xs) = Some (map f xs)"
  by (induction xs) simp_all

lemma series_map_Val:
  assumes "distinct S" and "set xs \<subseteq> set S"
  shows "series_map (map Val xs) (dict_sequencial (map Val S))
         = Inr (map (\<lambda>x. Some (state_number S x)) xs)"
proof -
  have "map (\<lambda>v. case v of Val x \<Rightarrow> map_of (zip (map Val S) [0..<length S]) (Val x)
                      | NaNobj k \<Rightarrow> (case nan_keys (zip (map Val S) [0..<length S]) of
                                       [] \<Rightarrow> None | i # _ \<Rightarrow> Some i)) (map Val xs)
        = map (\<lambda>x. Some (state_number S x)) xs"
    using assms by (auto simp: lookup_Val(1))
  then show ?thesis
    by (simp add: series_map_def dict_sequencial_zip nan_keys_Val)
qed

subsection \<open>Transition matrix: the estimate\<close>

lemma sum_list_scaled:
  "sum_list (map (\<lambda>f. real f / c) row) = real (sum_list row) / c"
  by (induction row) (simp_all add: add_divide_distrib)

lemma sum_list_rounded:
  fixes row :: "nat list"
  assumes s: "0 < s" and le: "\<forall>f \<in> set row. f \<le> s"
  shows "\<bar>sum_list (map (\<lambda>f. fl (real f / real s)) row) - sum_list (map (\<lambda>f. real f / real s) row)\<bar>
         \<le> real (length row) / 2 ^ 54"
  using le
proof (induction row)
  case Nil
  then show ?case by simp
next
  case (Cons f row)
  from Cons.prems s have "0 \<le> real f / real s" "real f / real s \<le> 1"
    by simp_all
  then have e: "\<bar>fl (real f / real s) - real f / real s\<bar> \<le> 1 / 2 ^ 54"
    by (rule fl_unit_error(1))
  from Cons.IH Cons.prems
  have ih: "\<bar>sum_list (map (\<lambda>f. fl (real f / real s)) row) - sum_list (map (\<lambda>f. real f / real s) row)\<bar>
         \<le> real (length row) / 2 ^ 54"
    by simp
  have "real (length (f # row)) / 2 ^ 54 = 1 / 2 ^ 54 + real (length row) / 2 ^ 54"
    by (simp add: add_divide_distrib)
  moreover have "\<bar>sum_list (map (\<lambda>f. fl (real f / real s)) (f # row))
        - sum_list (map (\<lambda>f. real f / real s) (f # row))\<bar>
      \<le> \<bar>fl (real f / real s) - real f / real s\<bar>
        + \<bar>sum_list (map (\<lambda>f. fl (real f / real s)) row) - sum_list (map (\<lambda>f. real f / real s) row)\<bar>"
    by simp
  ultimately show ?case using e ih by linarith
qed

lemma pair_positions:
  fixes xs :: "'a list"
  assumes dist: "distinct S" and sub: "set xs \<subseteq> set S"
    and i: "i < length S" and j: "j < length S"
  defines "ns \<equiv> map (state_number S) xs"
  shows "{t. t < length (zip ns (drop l ns)) \<and> zip ns (drop l ns) ! t = (i, j)}
         = {t. t + l < length xs \<and> xs ! t = S ! i \<and> xs ! (t + l) = S ! j}"
    and "{t. t < length (zip ns (drop l ns)) \<and> fst (zip ns (drop l ns) ! t) = i}
         = {t. t + l < length xs \<and> xs ! t = S ! i}"
proof -
  have len: "t < length (zip ns (drop l ns)) \<longleftrightarrow> t + l < length xs" for t
    by (auto simp: ns_def)
  have nth: "zip ns (drop l ns) ! t = (state_number S (xs ! t), state_number S (xs ! (t + l)))"
    if "t + l < length xs" for t
    using that by (simp add: ns_def add.commute)
  have eq: "state_number S (xs ! t) = k \<longleftrightarrow> xs ! t = S ! k" if "t < length xs" "k < length S" for t k
    using that sub by (intro state_number_eq_iff [OF dist]) auto
  have "(t < length (zip ns (drop l ns)) \<and> zip ns (drop l ns) ! t = (i, j))
        \<longleftrightarrow> (t + l < length xs \<and> xs ! t = S ! i \<and> xs ! (t + l) = S ! j)" for t
  proof (cases "t + l < length xs")
    case True
    then have "t < length xs" by simp
    from eq [OF this i] eq [OF True j] nth [OF True] len [of t] True
    show ?thesis by simp
  next
    case False
    with len [of t] show ?thesis by simp
  qed
  then show "{t. t < length (zip ns (drop l ns)) \<and> zip ns (drop l ns) ! t = (i, j)}
         = {t. t + l < length xs \<and> xs ! t = S ! i \<and> xs ! (t + l) = S ! j}"
    by (rule Collect_cong)
  have "(t < length (zip ns (drop l ns)) \<and> fst (zip ns (drop l ns) ! t) = i)
        \<longleftrightarrow> (t + l < length xs \<and> xs ! t = S ! i)" for t
  proof (cases "t + l < length xs")
    case True
    then have "t < length xs" by simp
    from eq [OF this i] nth [OF True] len [of t] True
    show ?thesis by simp
  next
    case False
    with len [of t] show ?thesis by simp
  qed
  then show "{t. t < length (zip ns (drop l ns)) \<and> fst (zip ns (drop l ns) ! t) = i}
         = {t. t + l < length xs \<and> xs ! t = S ! i}"
    by (rule Collect_cong)
qed

lemma transition_matrix_general:
  fixes xs :: "'a::linorder list"
  assumes lead: "0 \<le> lead"
  defines "S \<equiv> sorted_list_of_set (set xs)"
  shows "\<exists>F. transition_matrix (map Val xs) lead = Inr F
           \<and> labels F = map Val S
           \<and> length (cells F) = length S
           \<and> (\<forall>i < length S.
                 length (cells F ! i) = length S
                 \<and> (\<forall>j < length S.
                       cells F ! i ! j =
                         (if transitions_from xs (nat lead) (S ! i) = 0 then 0
                          else fl (real (transitions xs (nat lead) (S ! i) (S ! j))
                                   / real (transitions_from xs (nat lead) (S ! i)))))
                 \<and> (if transitions_from xs (nat lead) (S ! i) = 0
                     then \<forall>v \<in> set (cells F ! i). v = 0
                     else \<bar>sum_list (cells F ! i) - 1\<bar> \<le> real (length S) / 2 ^ 54))"
proof -
  define n where "n = length S"
  define l where "l = nat lead"
  define ns where "ns = map (state_number S) xs"
  define ps where "ps = zip ns (drop l ns)"
  define M0 where "M0 = replicate n (replicate n (0::nat))"
  have dist: "distinct S" and setS: "set S = set xs"
    by (simp_all add: S_def)
  have sub: "set xs \<subseteq> set S" by (simp add: setS)
  have ns_lt: "\<forall>k \<in> set ns. k < n"
    using lookup_Val(2) [OF dist] sub by (auto simp: ns_def n_def)
  have in_range: "\<forall>p \<in> set ps. fst p < n \<and> snd p < n"
  proof
    fix p assume "p \<in> set ps"
    then have "(fst p, snd p) \<in> set (zip ns (drop l ns))"
      by (simp add: ps_def)
    then have "fst p \<in> set ns" "snd p \<in> set (drop l ns)"
      by (rule set_zip_leftD, rule set_zip_rightD)
    with ns_lt show "fst p < n \<and> snd p < n"
      by (auto dest: in_set_dropD)
  qed
  have "length M0 = n" "\<forall>row \<in> set M0. length row = n"
    by (simp_all add: M0_def)
  from count_loop_counts [OF this in_range] obtain M' where
    run: "count_loop ps M0 = Inr M'" and lenM: "length M' = n"
    and rows: "\<forall>row \<in> set M'. length row = n"
    and cnt: "\<forall>i < n. \<forall>j < n. M' ! i ! j = M0 ! i ! j + count_list ps (i, j)"
    by blast
  have entry: "M' ! i ! j = transitions xs l (S ! i) (S ! j)" if "i < n" "j < n" for i j
  proof -
    from cnt that have "M' ! i ! j = count_list ps (i, j)" by (simp add: M0_def)
    also have "\<dots> = card {t. t < length ps \<and> ps ! t = (i, j)}"
      by (rule count_list_conv_card)
    also have "{t. t < length ps \<and> ps ! t = (i, j)}
        = {t. t + l < length xs \<and> xs ! t = S ! i \<and> xs ! (t + l) = S ! j}"
      unfolding ps_def ns_def using that by (intro pair_positions(1) [OF dist sub]) (simp_all add: n_def)
    finally show ?thesis by (simp add: transitions_def)
  qed
  have rowlen: "length (M' ! i) = n" if "i < n" for i
    using rows lenM that by simp
  have total: "sum_list (M' ! i) = transitions_from xs l (S ! i)" if i: "i < n" for i
  proof -
    have "sum_list (M' ! i) = (\<Sum>j < n. M' ! i ! j)"
      by (simp add: sum_list_sum_nth rowlen [OF i] atLeast0LessThan)
    also have "\<dots> = (\<Sum>j < n. count_list ps (i, j))"
      using cnt i by (intro sum.cong refl) (simp add: M0_def)
    also have "\<dots> = length (filter (\<lambda>p. fst p = i) ps)"
      using in_range by (intro row_total) simp
    also have "\<dots> = card {t. t < length ps \<and> fst (ps ! t) = i}"
      by (rule length_filter_conv_card)
    also have "{t. t < length ps \<and> fst (ps ! t) = i} = {t. t + l < length xs \<and> xs ! t = S ! i}"
      unfolding ps_def ns_def using i by (intro pair_positions(2) [OF dist sub]) (simp_all add: n_def)
    finally show ?thesis by (simp add: transitions_from_def)
  qed
  define F where "F = \<lparr>labels = map Val S, cells = to_probabilities M'\<rparr>"
  have "series_map (map Val xs) (dict_sequencial (map Val S)) = Inr (map (\<lambda>x. Some (state_number S x)) xs)"
    using dist sub by (rule series_map_Val)
  moreover have "count_transitions n (map (\<lambda>x. Some (state_number S x)) xs) lead = Inr M'"
    using lead run
    by (simp add: count_transitions_def those_map_Some slice_from_def ps_def ns_def l_def M0_def)
  ultimately have tm: "transition_matrix (map Val xs) lead = Inr F"
    by (simp add: transition_matrix_def unique_states_Val S_def [symmetric] n_def F_def)
  have row: "cells F ! i = (if 0 < sum_list (M' ! i)
                            then map (\<lambda>f. fl (real f / real (sum_list (M' ! i)))) (M' ! i)
                            else map real (M' ! i))" if "i < n" for i
    using that lenM by (simp add: F_def to_probabilities_def Let_def)
  have props: "length (cells F ! i) = n
      \<and> (\<forall>j < n. cells F ! i ! j =
                         (if transitions_from xs l (S ! i) = 0 then 0
                          else fl (real (transitions xs l (S ! i) (S ! j))
                                   / real (transitions_from xs l (S ! i)))))
      \<and> (if transitions_from xs l (S ! i) = 0
                     then \<forall>v \<in> set (cells F ! i). v = 0
                     else \<bar>sum_list (cells F ! i) - 1\<bar> \<le> real n / 2 ^ 54)" if i: "i < n" for i
  proof (cases "transitions_from xs l (S ! i) = 0")
    case True
    with total [OF i] have z: "sum_list (M' ! i) = 0" by simp
    then have allz: "\<forall>v \<in> set (M' ! i). v = 0" by simp
    have r: "cells F ! i = map real (M' ! i)"
      unfolding row [OF i] z by simp
    have "cells F ! i ! j = 0" if "j < n" for j
      using allz that rowlen [OF i] by (simp add: r)
    moreover have "\<forall>v \<in> set (cells F ! i). v = 0"
      using allz by (auto simp: r)
    ultimately show ?thesis using True rowlen [OF i] by (simp add: r)
  next
    case False
    with total [OF i] have pos: "0 < sum_list (M' ! i)" by simp
    with row [OF i] have r: "cells F ! i = map (\<lambda>f. fl (real f / real (sum_list (M' ! i)))) (M' ! i)"
      by simp
    have "cells F ! i ! j
        = fl (real (transitions xs l (S ! i) (S ! j)) / real (transitions_from xs l (S ! i)))"
      if "j < n" for j
      using that rowlen [OF i] entry [OF i that] total [OF i] by (simp add: r)
    moreover have "real (sum_list (M' ! i)) \<noteq> 0"
      using pos by (simp del: sum_list_eq_0_iff)
    then have "sum_list (map (\<lambda>f. real f / real (sum_list (M' ! i))) (M' ! i)) = 1"
      unfolding sum_list_scaled by (rule divide_self)
    moreover have "\<forall>f \<in> set (M' ! i). f \<le> sum_list (M' ! i)"
      by (simp add: member_le_sum_list)
    from sum_list_rounded [OF pos this]
    have "\<bar>sum_list (cells F ! i) - sum_list (map (\<lambda>f. real f / real (sum_list (M' ! i))) (M' ! i))\<bar>
        \<le> real n / 2 ^ 54"
      by (simp only: r rowlen [OF i])
    ultimately show ?thesis using False rowlen [OF i] by (simp add: r)
  qed
  have "labels F = map Val S" "length (cells F) = n"
    by (simp_all add: F_def to_probabilities_def lenM)
  with tm props show ?thesis
    unfolding n_def l_def by blast
qed

subsection \<open>Transition matrix: the claims\<close>

text \<open>
  Claim C8, as the code has it. For every NaN-free vector \<open>xs\<close> and every \<open>lead \<ge> 1\<close>,
  \<open>transition_matrix\<close> returns a matrix whose rows and columns are labelled with the
  different states of \<open>xs\<close> in increasing order. The entry in row \<open>i\<close> and column \<open>j\<close> is the
  double nearest to the quotient of the number of positions \<open>t\<close> with state \<open>i\<close> at \<open>t\<close> and
  state \<open>j\<close> at \<open>t + lead\<close> by the number of positions \<open>t\<close> with state \<open>i\<close> at \<open>t\<close> and some state
  at \<open>t + lead\<close>; when the latter number is 0 the entry is 0. All entries of a row are 0
  (when its state is never left), or the sum of its entries differs from 1 by at most
  \<^verbatim>\<open>n * 2**-54\<close>, where \<open>n\<close> is the number of states.
\<close>

theorem transition_matrix_rounded_estimate:
  fixes xs :: "'a::linorder list"
  assumes "1 \<le> lead"
  shows "\<exists>F. transition_matrix (map Val xs) lead = Inr F
           \<and> labels F = map Val (sorted_list_of_set (set xs))
           \<and> length (cells F) = card (set xs)
           \<and> (\<forall>i < card (set xs).
                 length (cells F ! i) = card (set xs)
                 \<and> (\<forall>j < card (set xs).
                       cells F ! i ! j =
                         (if transitions_from xs (nat lead) (sorted_list_of_set (set xs) ! i) = 0 then 0
                          else fl (real (transitions xs (nat lead) (sorted_list_of_set (set xs) ! i)
                                           (sorted_list_of_set (set xs) ! j))
                                   / real (transitions_from xs (nat lead) (sorted_list_of_set (set xs) ! i)))))
                 \<and> (if transitions_from xs (nat lead) (sorted_list_of_set (set xs) ! i) = 0
                     then \<forall>v \<in> set (cells F ! i). v = 0
                     else \<bar>sum_list (cells F ! i) - 1\<bar> \<le> real (card (set xs)) / 2 ^ 54))"
proof -
  from assms have "0 \<le> lead" by simp
  moreover have len: "length (sorted_list_of_set (set xs)) = card (set xs)" by simp
  ultimately show ?thesis
    using transition_matrix_general [of lead xs] by (simp only: len)
qed

text \<open>
  The sentence of the specification, with rows that sum to 1, fails on the vector
  \<open>0, 0, 0, 1, 0, 1, 0, 1, 0, 2\<close> with \<open>lead = 1\<close>. State 0 is left six times: twice to 0,
  three times to 1 and once to 2. The entries of its row are the doubles \<^verbatim>\<open>2/6\<close>, \<^verbatim>\<open>3/6\<close> and
  \<^verbatim>\<open>1/6\<close>; their sum is \<^verbatim>\<open>1 - 2**-55\<close>, and added up in doubles from left to right, as Python's
  \<^verbatim>\<open>sum\<close> does, they give \<^verbatim>\<open>1 - 2**-53\<close>, printed \<^verbatim>\<open>0.9999999999999999\<close>. The row is not all zeros
  either.
\<close>

theorem transition_matrix_row_sum_below_one:
  "transition_matrix (map Val [0, 0, 0, 1, 0, 1, 0, 1, 0, 2 :: int]) 1
     = Inr \<lparr>labels = [Val 0, Val 1, Val 2],
            cells = [[6004799503160661 / 18014398509481984, 1 / 2,
                      6004799503160661 / 36028797018963968],
                     [1, 0, 0], [0, 0, 0]]\<rparr>
   \<and> sum_list [6004799503160661 / 18014398509481984, 1 / 2,
               6004799503160661 / 36028797018963968 :: real]
       = 36028797018963967 / 36028797018963968
   \<and> fl (fl (fl (0 + 6004799503160661 / 18014398509481984) + 1 / 2)
           + 6004799503160661 / 36028797018963968)
       = 9007199254740991 / 9007199254740992"
  by code_simp

lemma example_matrix:
  "transition_matrix (map Val [0, 1, 1, 0, 2, 1 :: int]) 1
   = Inr \<lparr>labels = [Val 0, Val 1, Val 2],
          cells = [[0, 1 / 2, 1 / 2], [1 / 2, 1 / 2, 0], [0, 1, 0]]\<rparr>"
  by code_simp

theorem transition_matrix_rounded_estimate_witness:
  "(1::int) \<le> 1
   \<and> transition_matrix (map Val [0, 1, 1, 0, 2, 1 :: int]) 1
       = Inr \<lparr>labels = [Val 0, Val 1, Val 2],
              cells = [[0, 1 / 2, 1 / 2], [1 / 2, 1 / 2, 0], [0, 1, 0]]\<rparr>
   \<and> map Val (sorted_list_of_set (set [0, 1, 1, 0, 2, 1 :: int])) = [Val 0, Val 1, Val 2]"
proof -
  have h: "(1::int) \<le> 1" by simp
  from transition_matrix_rounded_estimate [OF h, of "[0, 1, 1, 0, 2, 1 :: int]"] obtain F where
    f1: "transition_matrix (map Val [0, 1, 1, 0, 2, 1 :: int]) 1 = Inr F"
    and f2: "labels F = map Val (sorted_list_of_set (set [0, 1, 1, 0, 2, 1 :: int]))"
    by blast
  from f1 have "Inr F = (Inr \<lparr>labels = [Val 0, Val 1, Val 2],
      cells = [[0, 1 / 2, 1 / 2], [1 / 2, 1 / 2, 0], [0, 1, 0]]\<rparr> :: error + int dataframe)"
    by (simp only: example_matrix)
  then have "labels F = [Val 0, Val 1, Val 2]"
    by simp
  with f2 have "map Val (sorted_list_of_set (set [0, 1, 1, 0, 2, 1 :: int])) = [Val 0, Val 1, Val 2]"
    by (simp only:)
  with h example_matrix show ?thesis by blast
qed

text \<open>
  Claim C1. The docstring of \<open>transition_matrix\<close> notes that the data should not have NaN
  values, otherwise the code crashes, and the specification says the same: every vector
  with a NaN makes the routine raise. The function has no check for missing values, and
  it does not raise for the vector that holds one NaN and nothing else: with \<open>lead = 1\<close>
  the loop has no pair to count, and the routine returns the matrix with the one state
  NaN and the entry 0.
\<close>

theorem transition_matrix_nan_returns:
  "NaNobj 0 \<in> set [NaNobj 0 :: real elem]
   \<and> transition_matrix [NaNobj 0 :: real elem] 1 = Inr \<lparr>labels = [NaNobj 0], cells = [[0]]\<rparr>"
  by code_simp

end
